theory Spec2Isabelle
  imports Main
begin

section \<open>Go values: strings, slices, runes\<close>

text \<open>
  A Go string is a sequence of bytes, modelled as \<open>string\<close> (a list of 8-bit characters).
  Lengths, indices and byte counts are Go \<open>int\<close>s, modelled as \<open>int\<close>: no string of the
  program is long enough for a 64-bit overflow. A computation of the program either returns
  a value or panics (a slice expression out of range, a method call on a nil interface).
\<close>

datatype 'a run = Returns 'a | Panics

abbreviation len :: "'a list \<Rightarrow> int" where
  "len xs \<equiv> int (length xs)"

text \<open>The slice expressions \<open>s[lo:hi]\<close>, \<open>s[lo:]\<close> and \<open>s[:hi]\<close>, with Go's range check.\<close>

definition slice :: "string \<Rightarrow> int \<Rightarrow> int \<Rightarrow> string run" where
  "slice s lo hi =
     (if 0 \<le> lo \<and> lo \<le> hi \<and> hi \<le> len s
      then Returns (take (nat (hi - lo)) (drop (nat lo) s))
      else Panics)"

definition sliceFrom :: "string \<Rightarrow> int \<Rightarrow> string run" where
  "sliceFrom s lo = slice s lo (len s)"

definition sliceTo :: "string \<Rightarrow> int \<Rightarrow> string run" where
  "sliceTo s hi = slice s 0 hi"

text \<open>
  \<open>strings.Index\<close> of the Go standard library: the byte index of the first instance of
  \<open>substr\<close> in \<open>s\<close>, or \<open>-1\<close> when there is none.
\<close>

fun strings_Index :: "string \<Rightarrow> string \<Rightarrow> int" where
  "strings_Index [] substr = (if substr = [] then 0 else -1)"
| "strings_Index (c # cs) substr =
     (if take (length substr) (c # cs) = substr then 0
      else (let r = strings_Index cs substr in if r = -1 then -1 else r + 1))"

text \<open>
  Decoding the first UTF-8 sequence of a string, as \<open>utf8.DecodeRuneInString\<close> of the Go
  standard library does (and with it \<open>range\<close> over a string and \<open>strings.Reader.ReadRune\<close>):
  the code point and its width in bytes; an invalid or truncated sequence decodes to
  \<open>RuneError\<close> of width 1, an empty string to \<open>RuneError\<close> of width 0.
\<close>

definition RuneError :: nat where
  "RuneError = 65533"

definition byte :: "string \<Rightarrow> nat \<Rightarrow> nat" where
  "byte s i = of_char (s ! i)"

definition decodeRune :: "string \<Rightarrow> nat \<times> nat" where
  "decodeRune s =
     (if length s < 1 then (RuneError, 0)
      else let s0 = byte s 0 in
        if s0 < 128 then (s0, 1)
        else if s0 < 194 \<or> 244 < s0 then (RuneError, 1)
        else let sz = (if s0 < 224 then 2 else if s0 < 240 then 3 else (4::nat));
                 lo = (if s0 = 224 then 160 else if s0 = 240 then 144 else (128::nat));
                 hi = (if s0 = 237 then 159 else if s0 = 244 then 143 else (191::nat))
             in if length s < sz then (RuneError, 1)
                else let s1 = byte s 1 in
                  if s1 < lo \<or> hi < s1 then (RuneError, 1)
                  else if sz \<le> 2 then ((s0 mod 32) * 64 + s1 mod 64, 2)
                  else let s2 = byte s 2 in
                    if s2 < 128 \<or> 191 < s2 then (RuneError, 1)
                    else if sz \<le> 3
                      then ((s0 mod 16) * 4096 + (s1 mod 64) * 64 + s2 mod 64, 3)
                      else let s3 = byte s 3 in
                        if s3 < 128 \<or> 191 < s3 then (RuneError, 1)
                        else ((s0 mod 8) * 262144 + (s1 mod 64) * 4096
                                + (s2 mod 64) * 64 + s3 mod 64, 4))"

text \<open>\<open>utf8.RuneLen\<close>: the number of bytes of the encoding of a code point, \<open>-1\<close> if it has none.\<close>

definition RuneLen :: "nat \<Rightarrow> int" where
  "RuneLen r =
     (if r < 128 then 1
      else if r < 2048 then 2
      else if 55296 \<le> r \<and> r \<le> 57343 then -1
      else if r < 65536 then 3
      else if r \<le> 1114111 then 4
      else -1)"

text \<open>
  \<open>for index, code := range s\<close>: the byte index and the code point of each decoded
  sequence of \<open>s\<close>, in order; \<open>rangeString i s\<close> lists them for the suffix \<open>s\<close> that starts
  at byte \<open>i\<close>.
\<close>

function rangeString :: "nat \<Rightarrow> string \<Rightarrow> (nat \<times> nat) list" where
  "rangeString i [] = []"
| "rangeString i (c # cs) =
     (i, fst (decodeRune (c # cs)))
       # rangeString (i + snd (decodeRune (c # cs))) (drop (snd (decodeRune (c # cs))) (c # cs))"
  by pat_completeness auto
termination
proof (relation "measure (\<lambda>(i, s). length s)")
  show "wf (measure (\<lambda>(i, s). length s))" by simp
next
  fix i :: nat and c :: char and cs :: string
  have "0 < snd (decodeRune (c # cs))"
    by (simp add: decodeRune_def Let_def)
  then show "((i + snd (decodeRune (c # cs)), drop (snd (decodeRune (c # cs))) (c # cs)), i, c # cs)
               \<in> measure (\<lambda>(i, s). length s)"
    by simp
qed

text \<open>The three characters the pattern compiler gives a meaning to, as code points.\<close>

definition backslash :: char where
  "backslash = CHR 0x5C"

definition rune :: "char \<Rightarrow> nat" where
  "rune c = of_char c"

section \<open>The step scanners\<close>

text \<open>
  A \<open>scanFunc\<close> takes the input and a substring and returns whether it matched, the input
  left, and the number of bytes consumed.
\<close>

type_synonym scanResult = "bool \<times> string \<times> int"

text \<open>
  The search loop of \<open>consumeAllPreceding\<close>, entered with \<open>offset\<close> and the last result
  \<open>subIndex\<close> of \<open>strings.Index\<close>. The loop has no bound in the source, so the model is a
  partial function: \<open>None\<close> is a loop that never returns.
\<close>

partial_function (option) consumeAllLoop ::
    "string \<Rightarrow> string \<Rightarrow> int \<Rightarrow> int \<Rightarrow> scanResult run option" where
  "consumeAllLoop str substr offset subIndex =
     (if subIndex \<noteq> -1 then
        (let offset' = offset + subIndex in
         if subIndex > 0 then
           (case sliceFrom str (offset' + len substr) of
              Panics \<Rightarrow> Some Panics
            | Returns t \<Rightarrow> Some (Returns (True, t, offset' + len substr)))
         else
           (case sliceFrom str (offset' + subIndex + 1) of
              Panics \<Rightarrow> Some Panics
            | Returns t \<Rightarrow> consumeAllLoop str substr offset' (strings_Index t substr)))
      else Some (Returns (False, str, 0)))"

definition consumeAllPreceding :: "string \<Rightarrow> string \<Rightarrow> scanResult run option" where
  "consumeAllPreceding str substr =
     (if len str = 0 then Some (Returns (len substr = 0, str, 0))
      else if len substr = 0 then
        (case sliceFrom str (len str) of
           Panics \<Rightarrow> Some Panics
         | Returns t \<Rightarrow> Some (Returns (True, t, len str)))
      else consumeAllLoop str substr 0 (strings_Index str substr))"

text \<open>
  \<open>consumeOnePreceding\<close> reads one rune from a reader over \<open>str\<close>: \<open>size\<close> is its width,
  \<open>r.Len()\<close> the bytes left after it, and \<open>err\<close> is set only at the end of the input.
\<close>

definition consumeOnePreceding :: "string \<Rightarrow> string \<Rightarrow> scanResult run" where
  "consumeOnePreceding str substr =
     (if len str < 1 then Returns (False, str, 0)
      else let size = int (snd (decodeRune str));
               err = (length str = 0);
               rLen = len str - size
           in if \<not> err \<and> rLen < len substr then Returns (False, str, 0)
              else if err then Returns (False, str, 0)
              else if len str < len substr + 1 then Returns (False, str, 0)
              else if len substr = 0 then
                (case sliceFrom str size of
                   Panics \<Rightarrow> Panics
                 | Returns t \<Rightarrow> Returns (True, t, size))
              else
                (case slice str size (size + len substr) of
                   Panics \<Rightarrow> Panics
                 | Returns mid \<Rightarrow>
                     if mid \<noteq> substr then
                       (case sliceFrom str (size + len substr) of
                          Panics \<Rightarrow> Panics
                        | Returns t \<Rightarrow> Returns (True, t, size + len substr))
                     else Returns (False, str, 0)))"

definition consumeSubstring :: "string \<Rightarrow> string \<Rightarrow> scanResult run" where
  "consumeSubstring str substr =
     (if len str < len substr then Returns (False, str, 0)
      else if len substr = 0 then Returns (True, str, 0)
      else
        (case sliceTo str (len substr) of
           Panics \<Rightarrow> Panics
         | Returns pre \<Rightarrow>
             if pre \<noteq> substr then Returns (False, str, 0)
             else
               (case sliceFrom str (len substr) of
                  Panics \<Rightarrow> Panics
                | Returns t \<Rightarrow> Returns (True, t, len substr))))"

definition consumeEnd :: "string \<Rightarrow> string \<Rightarrow> scanResult run" where
  "consumeEnd str substr = Returns (len str = 0 \<and> len substr = 0, str, 0)"

section \<open>Compiled patterns\<close>

datatype globKind = globMany | globOne | globString | globEnd

text \<open>The four scanner functions a step can point to.\<close>

datatype scanFunc = ConsumeAllPreceding | ConsumeOnePreceding | ConsumeSubstring | ConsumeEnd

record globScanner =
  scanner :: scanFunc
  kind :: globKind
  substr :: string
  start :: int

datatype error = ErrInvalidPatternType | ErrPatternInvalid | ErrPatternEmpty | ErrInvalidGlobSequence

text \<open>
  The \<open>switch\<close> at the head of the compiler's loop body: the scanner, the kind and the
  start of a new step, or \<open>None\<close> for the \<open>default\<close> case, which goes on to the next
  code point. A start of \<open>-1\<close> is replaced later by the index after the code point.
\<close>

definition classify :: "nat \<Rightarrow> int \<Rightarrow> (scanFunc \<times> globKind \<times> int) option" where
  "classify code index =
     (if code = rune backslash then Some (ConsumeSubstring, globString, -1)
      else if code = rune (CHR ''*'') then Some (ConsumeAllPreceding, globMany, -1)
      else if code = rune (CHR ''?'') then Some (ConsumeOnePreceding, globOne, -1)
      else if index = 0 then Some (ConsumeSubstring, globString, index)
      else None)"

text \<open>
  The steps are held by pointer, so an assignment to a field of \<open>last\<close> changes the last
  element of \<open>wildcards\<close>.
\<close>

definition setLast :: "globScanner list \<Rightarrow> globScanner \<Rightarrow> globScanner list" where
  "setLast wildcards g = wildcards[length wildcards - 1 := g]"

text \<open>
  One pass of the loop body for the code point \<open>code\<close> at byte \<open>index\<close>: the new list of
  steps, or the error the compiler returns with.
\<close>

definition compileStep ::
    "string \<Rightarrow> nat \<times> nat \<Rightarrow> globScanner list \<Rightarrow> (error + globScanner list) run" where
  "compileStep pattern ic wildcards =
     (let index = int (fst ic); code = snd ic in
      case classify code index of
        None \<Rightarrow> Returns (Inr wildcards)
      | Some (fn, kind', start') \<Rightarrow>
          (let numWildcards = len wildcards;
               start'' = (if start' = -1 then index + RuneLen code else start');
               new = \<lparr>scanner = fn, kind = kind', substr = [], start = start''\<rparr>
           in if numWildcards > 0 then
                (let last = wildcards ! nat (numWildcards - 1) in
                 if (kind' = globOne \<or> kind' = globMany) \<and> kind last = globMany
                      \<and> start last = index
                 then Returns (Inl ErrInvalidGlobSequence)
                 else if code = rune backslash \<and> len (substr last) = 0
                 then Returns (Inr (setLast wildcards (last\<lparr>start := start last + RuneLen code\<rparr>)))
                 else
                   (case slice pattern (start last) index of
                      Panics \<Rightarrow> Panics
                    | Returns t \<Rightarrow>
                        Returns (Inr (setLast wildcards (last\<lparr>substr := t\<rparr>) @ [new]))))
              else Returns (Inr (wildcards @ [new]))))"

fun compileLoop ::
    "string \<Rightarrow> (nat \<times> nat) list \<Rightarrow> globScanner list \<Rightarrow> (error + globScanner list) run" where
  "compileLoop pattern [] wildcards = Returns (Inr wildcards)"
| "compileLoop pattern (ic # rest) wildcards =
     (case compileStep pattern ic wildcards of
        Panics \<Rightarrow> Panics
      | Returns (Inl e) \<Rightarrow> Returns (Inl e)
      | Returns (Inr wildcards') \<Rightarrow> compileLoop pattern rest wildcards')"

text \<open>After the loop: the last step takes the rest of the pattern, and the end step follows.\<close>

definition finishSteps :: "string \<Rightarrow> globScanner list \<Rightarrow> globScanner list run" where
  "finishSteps pattern wildcards =
     (let numWildcards = len wildcards;
          endStep = \<lparr>scanner = ConsumeEnd, kind = globEnd, substr = [], start = len pattern\<rparr>
      in if numWildcards > 0 then
           (let last = wildcards ! nat (numWildcards - 1) in
            case sliceFrom pattern (start last) of
              Panics \<Rightarrow> Panics
            | Returns t \<Rightarrow> Returns (setLast wildcards (last\<lparr>substr := t\<rparr>) @ [endStep]))
         else Returns (wildcards @ [endStep]))"

text \<open>
  \<open>compileGlobPattern\<close> returns a slice of steps and an error; the slice is \<open>nil\<close>
  (\<open>None\<close>) exactly where the source returns \<open>nil\<close>.
\<close>

definition compileGlobPattern :: "string \<Rightarrow> (globScanner list option \<times> error option) run" where
  "compileGlobPattern pattern =
     (case compileLoop pattern (rangeString 0 pattern) [] of
        Panics \<Rightarrow> Panics
      | Returns (Inl e) \<Rightarrow> Returns (None, Some e)
      | Returns (Inr wildcards) \<Rightarrow>
          (case finishSteps pattern wildcards of
             Panics \<Rightarrow> Panics
           | Returns wildcards' \<Rightarrow> Returns (Some wildcards', None)))"

record GlobPattern =
  pattern :: string
  steps :: "globScanner list"

definition NewPattern :: "string \<Rightarrow> (GlobPattern option \<times> error option) run" where
  "NewPattern p =
     (case compileGlobPattern p of
        Panics \<Rightarrow> Panics
      | Returns (ss, err) \<Rightarrow>
          if err \<noteq> None then Returns (None, err)
          else if ss = None then Returns (None, Some ErrPatternInvalid)
          else if length (the ss) = 0 then Returns (None, Some ErrPatternEmpty)
          else Returns (Some \<lparr>pattern = p, steps = the ss\<rparr>, None))"

section \<open>The matcher\<close>

text \<open>Calling the scanner a step points to. Only \<open>consumeAllPreceding\<close> has a loop.\<close>

definition runScanner :: "scanFunc \<Rightarrow> string \<Rightarrow> string \<Rightarrow> scanResult run option" where
  "runScanner fn str sub =
     (case fn of
        ConsumeAllPreceding \<Rightarrow> consumeAllPreceding str sub
      | ConsumeOnePreceding \<Rightarrow> Some (consumeOnePreceding str sub)
      | ConsumeSubstring \<Rightarrow> Some (consumeSubstring str sub)
      | ConsumeEnd \<Rightarrow> Some (consumeEnd str sub))"

text \<open>
  The variables of \<open>GlobPattern.Matches\<close> that live across iterations of its loop. The
  field \<open>remaining\<close> is the variable \<open>substr\<close> of the source (the input not yet consumed).
\<close>

record cursor =
  stepIndex :: int
  remaining :: string
  firstMany :: int
  firstManySubstr :: string
  wasReset :: bool

definition initCursor :: "string \<Rightarrow> cursor" where
  "initCursor str =
     \<lparr>stepIndex = 0, remaining = str, firstMany = -1, firstManySubstr = str, wasReset = False\<rparr>"

text \<open>The head of the loop body: entering the first \<open>globMany\<close> step saves the input.\<close>

definition beforeScan :: "globScanner \<Rightarrow> cursor \<Rightarrow> cursor" where
  "beforeScan test c =
     (if (firstMany c = -1 \<or> firstMany c = stepIndex c) \<and> kind test = globMany
      then c\<lparr>firstMany := stepIndex c, firstManySubstr := remaining c\<rparr>
      else c)"

text \<open>
  The rest of the loop body, from the scanner's result: the loop goes on with a new cursor,
  or the function returns.
\<close>

datatype transition = Next cursor | Return bool

definition afterScan :: "globScanner \<Rightarrow> cursor \<Rightarrow> scanResult \<Rightarrow> transition run" where
  "afterScan test c r =
     (case r of (matches, rest, bytesConsumed) \<Rightarrow>
        (case (if matches \<and> firstMany c = stepIndex c
               then sliceFrom (firstManySubstr c) (bytesConsumed - len (substr test))
               else Returns (firstManySubstr c)) of
           Panics \<Rightarrow> Panics
         | Returns fms \<Rightarrow>
             if \<not> matches then
               (if firstMany c = -1 \<or> stepIndex c = 0 \<or> wasReset c \<or> len fms = 0
                then Returns (Return False)
                else
                  (case sliceFrom fms 1 of
                     Panics \<Rightarrow> Panics
                   | Returns t \<Rightarrow>
                       Returns (Next (c\<lparr>stepIndex := firstMany c, remaining := t,
                                       firstManySubstr := fms, wasReset := True\<rparr>))))
             else Returns (Next (c\<lparr>stepIndex := stepIndex c + 1, remaining := rest,
                                   firstManySubstr := fms, wasReset := False\<rparr>))))"

text \<open>
  One pass of the loop body at a cursor whose step index is in range: the step is read,
  its scanner is called on the input left and the step's substring, and the result decides
  the transition. \<open>None\<close> is a scanner that never returns.
\<close>

definition iteration :: "globScanner list \<Rightarrow> cursor \<Rightarrow> transition run option" where
  "iteration ss c =
     (if stepIndex c < 0 then Some Panics
      else
        (let test = ss ! nat (stepIndex c);
             c1 = beforeScan test c
         in case runScanner (scanner test) (remaining c1) (substr test) of
              None \<Rightarrow> None
            | Some Panics \<Rightarrow> Some Panics
            | Some (Returns r) \<Rightarrow> Some (afterScan test c1 r)))"

text \<open>
  The loop of \<open>GlobPattern.Matches\<close>. It has no bound in the source and calls a scanner
  that may not return, so it is a partial function: \<open>None\<close> is a call that never returns.
\<close>

partial_function (option) matchLoop :: "globScanner list \<Rightarrow> cursor \<Rightarrow> bool run option" where
  "matchLoop ss c =
     (if stepIndex c < len ss then
        (case iteration ss c of
           None \<Rightarrow> None
         | Some Panics \<Rightarrow> Some Panics
         | Some (Returns (Return b)) \<Rightarrow> Some (Returns b)
         | Some (Returns (Next c')) \<Rightarrow> matchLoop ss c')
      else Some (Returns (len (remaining c) = 0 \<and> stepIndex c = len ss)))"

definition GlobPattern_Matches :: "GlobPattern \<Rightarrow> string \<Rightarrow> bool run option" where
  "GlobPattern_Matches p str = matchLoop (steps p) (initCursor str)"

section \<open>The pattern surface\<close>

text \<open>
  The values of the interface type \<open>Pattern\<close>: its method is unexported, so they are a
  \<open>*GlobPattern\<close>, a \<open>Literal\<close>, a \<open>PatternStr\<close>, or the \<open>nil\<close> interface value. A
  \<open>matcher\<close> is a \<open>*GlobPattern\<close> or a \<open>Literal\<close>.
\<close>

datatype Pattern = NilPattern | GlobPatternP GlobPattern | LiteralP string | PatternStrP string

datatype matcher = GlobMatcher GlobPattern | LiteralMatcher string

definition compiled :: "Pattern \<Rightarrow> (matcher option \<times> error option) run" where
  "compiled p =
     (case p of
        NilPattern \<Rightarrow> Panics
      | GlobPatternP g \<Rightarrow> Returns (Some (GlobMatcher g), None)
      | LiteralP l \<Rightarrow> Returns (Some (LiteralMatcher l), None)
      | PatternStrP t \<Rightarrow>
          (case NewPattern t of
             Panics \<Rightarrow> Panics
           | Returns (g, err) \<Rightarrow> Returns (map_option GlobMatcher g, err)))"

definition matcher_Matches :: "matcher \<Rightarrow> string \<Rightarrow> bool run option" where
  "matcher_Matches m str =
     (case m of
        GlobMatcher g \<Rightarrow> GlobPattern_Matches g str
      | LiteralMatcher l \<Rightarrow> Some (Returns (l = str)))"

text \<open>The function \<open>Matches\<close> of the package: the pair \<open>(matched, err)\<close> it returns.\<close>

definition Matches :: "Pattern \<Rightarrow> string \<Rightarrow> (bool \<times> error option) run option" where
  "Matches p str =
     (case compiled p of
        Panics \<Rightarrow> Some Panics
      | Returns (m, err) \<Rightarrow>
          if err \<noteq> None then Some (Returns (False, err))
          else
            (case m of
               None \<Rightarrow> Some Panics
             | Some m' \<Rightarrow>
                 (case matcher_Matches m' str of
                    None \<Rightarrow> None
                  | Some Panics \<Rightarrow> Some Panics
                  | Some (Returns b) \<Rightarrow> Some (Returns (b, None)))))"

section \<open>Notions the properties are stated with\<close>

text \<open>The end step the compiler appends to the steps of \<open>p\<close>.\<close>

definition endStep :: "string \<Rightarrow> globScanner" where
  "endStep p = \<lparr>scanner = ConsumeEnd, kind = globEnd, substr = [], start = len p\<rparr>"

text \<open>The index of the first \<open>globMany\<close> step of a step sequence (its length if there is none).\<close>

definition firstManyIndex :: "globScanner list \<Rightarrow> int" where
  "firstManyIndex ss = len (takeWhile (\<lambda>g. kind g \<noteq> globMany) ss)"

text \<open>
  The cursor at the head of the loop of \<open>GlobPattern.Matches\<close> after \<open>n\<close> passes on the
  input \<open>str\<close>, if the loop gets that far.
\<close>

fun cursorAt :: "globScanner list \<Rightarrow> string \<Rightarrow> nat \<Rightarrow> cursor option" where
  "cursorAt ss str 0 = Some (initCursor str)"
| "cursorAt ss str (Suc n) =
     (case cursorAt ss str n of
        None \<Rightarrow> None
      | Some c \<Rightarrow>
          if stepIndex c < len ss then
            (case iteration ss c of
               Some (Returns (Next c')) \<Rightarrow> Some c'
             | _ \<Rightarrow> None)
          else None)"

text \<open>
  The invariant of the compiler's loop: the start of the last step lies between 0 and the
  index \<open>i\<close> of the code point the loop is about to read.
\<close>

definition startOk :: "globScanner list \<Rightarrow> int \<Rightarrow> bool" where
  "startOk ws i = (ws = [] \<or> (0 \<le> start (last ws) \<and> start (last ws) \<le> i))"

text \<open>
  The invariant of the loop of \<open>GlobPattern.Matches\<close>: the step index is not negative;
  while no \<open>globMany\<close> step is recorded, no step before the step index is one; once one is
  recorded, it is the first \<open>globMany\<close> step of the sequence and not after the step index.
\<close>

definition cursorOk :: "globScanner list \<Rightarrow> cursor \<Rightarrow> bool" where
  "cursorOk ss c = (0 \<le> stepIndex c \<and>
     (if firstMany c = -1
      then (\<forall>j < nat (stepIndex c). j < length ss \<longrightarrow> kind (ss ! j) \<noteq> globMany)
      else firstMany c = firstManyIndex ss \<and> firstMany c < len ss
           \<and> firstMany c \<le> stepIndex c))"

section \<open>Evaluating the definitions\<close>

lemmas scan_defs = consumeOnePreceding_def consumeSubstring_def consumeEnd_def
  consumeAllPreceding_def slice_def sliceFrom_def sliceTo_def decodeRune_def byte_def Let_def

lemmas compile_defs = compileGlobPattern_def compileStep_def classify_def finishSteps_def
  setLast_def rune_def backslash_def RuneLen_def NewPattern_def endStep_def

lemmas match_defs = GlobPattern_Matches_def initCursor_def iteration_def beforeScan_def
  afterScan_def runScanner_def Matches_def compiled_def matcher_Matches_def

section \<open>Properties of the scanners\<close>

text \<open>
  The search loop of \<open>consumeAllPreceding\<close> never returns when the substring is found at
  index 0 twice in a row: it is entered at offset 0 with index 0, searches \<open>str[1:]\<close>,
  finds the substring at index 0 again, and is back at offset 0 with index 0.
\<close>

lemma consumeAllLoop_spins:
  assumes ne: "s \<noteq> []" and again: "strings_Index (drop 1 s) t = 0"
  shows "consumeAllLoop s t 0 0 = None"
proof (rule ccontr)
  assume "consumeAllLoop s t 0 0 \<noteq> None"
  then obtain y where y: "consumeAllLoop s t 0 0 = Some y" by auto
  have "\<not> (s' = s \<and> t' = t \<and> off = 0 \<and> sub = 0)"
    if "consumeAllLoop s' t' off sub = Some r" for s' t' off sub r
    using that
  proof (induction rule: consumeAllLoop.raw_induct[rotated 1, consumes 1, case_names step])
    case (step f s' t' off sub r)
    show ?case
    proof
      assume e: "s' = s \<and> t' = t \<and> off = 0 \<and> sub = 0"
      from ne have "sliceFrom s 1 = Returns (drop 1 s)"
        by (cases s) (simp_all add: sliceFrom_def slice_def)
      with step(2) e again have "f s t 0 0 = Some r"
        by simp
      with step(1) e show False by blast
    qed
  qed
  with y show False by blast
qed

lemma consumeAllPreceding_aa_a: "consumeAllPreceding ''aa'' ''a'' = None"
  using consumeAllLoop_spins[of "''aa''" "''a''"] by (simp add: consumeAllPreceding_def)

text \<open>What \<open>strings.Index\<close> returns: the first position where the substring occurs.\<close>

lemma strings_Index_found:
  "strings_Index s t = k \<Longrightarrow> k \<noteq> -1 \<Longrightarrow>
     0 \<le> k \<and> k + len t \<le> len s \<and> take (length t) (drop (nat k) s) = t
     \<and> (\<forall>j < nat k. take (length t) (drop j s) \<noteq> t)"
proof (induction s arbitrary: k)
  case Nil
  then show ?case by (auto split: if_splits)
next
  case (Cons c cs)
  show ?case
  proof (cases "take (length t) (c # cs) = t")
    case True
    from arg_cong[OF True, of length] have "length t \<le> length (c # cs)"
      by simp
    with True Cons.prems show ?thesis by auto
  next
    case False
    define r where "r = strings_Index cs t"
    from False Cons.prems have r: "r \<noteq> -1" "k = r + 1"
      by (auto simp: r_def Let_def split: if_splits)
    from Cons.IH[OF r_def[symmetric] r(1)]
    have ih: "0 \<le> r" "r + len t \<le> len cs" "take (length t) (drop (nat r) cs) = t"
      "\<forall>j < nat r. take (length t) (drop j cs) \<noteq> t"
      by auto
    have "take (length t) (drop j (c # cs)) \<noteq> t" if "j < nat k" for j
    proof (cases j)
      case 0
      with False show ?thesis by simp
    next
      case (Suc j')
      with that r ih(1) have "j' < nat r" by simp
      with ih(4) Suc show ?thesis by simp
    qed
    with r ih show ?thesis
      by (auto simp: nat_add_distrib)
  qed
qed

lemma strings_Index_missing:
  "strings_Index s t = -1 \<Longrightarrow> take (length t) (drop j s) \<noteq> t"
proof (induction s arbitrary: j)
  case Nil
  then show ?case by (auto split: if_splits)
next
  case (Cons c cs)
  from Cons.prems strings_Index_found[of cs t "strings_Index cs t"]
  have nt: "take (length t) (c # cs) \<noteq> t" and r: "strings_Index cs t = -1"
    by (auto simp: Let_def split: if_splits)
  show ?case
  proof (cases j)
    case 0
    with nt show ?thesis by simp
  next
    case (Suc j')
    with Cons.IH[OF r, of j'] show ?thesis by simp
  qed
qed

text \<open>
  What \<open>consumeAllPreceding\<close> does on a non-empty input and a non-empty substring, in
  terms of \<open>strings.Index\<close>: it is right when the first occurrence is not at index 0;
  otherwise it searches the input after its first byte, and then fails when there is no
  occurrence, returns a slice that starts one byte early when the occurrence is not at the
  start of that rest, and never returns when it is.
\<close>

lemma consumeAllPreceding_cases:
  assumes s: "s \<noteq> []" and t: "t \<noteq> []"
  shows "consumeAllPreceding s t =
     (if strings_Index s t = -1 then Some (Returns (False, s, 0))
      else if strings_Index s t > 0
        then Some (Returns (True, drop (nat (strings_Index s t) + length t) s, strings_Index s t + len t))
      else if strings_Index (drop 1 s) t = -1 then Some (Returns (False, s, 0))
      else if strings_Index (drop 1 s) t > 0
        then Some (Returns (True, drop (nat (strings_Index (drop 1 s) t) + length t) s,
                            strings_Index (drop 1 s) t + len t))
      else None)"
proof -
  define k where "k = strings_Index s t"
  define j where "j = strings_Index (drop 1 s) t"
  have start: "consumeAllPreceding s t = consumeAllLoop s t 0 k"
    using s t by (simp add: consumeAllPreceding_def k_def)
  have s1: "sliceFrom s 1 = Returns (drop 1 s)"
    using s by (cases s) (simp_all add: sliceFrom_def slice_def)
  consider "k = -1" | "k > 0" | "k = 0" "j = -1" | "k = 0" "j > 0" | "k = 0" "j = 0"
    using strings_Index_found[of s t k] strings_Index_found[of "drop 1 s" t j]
    by (cases "k = -1"; cases "j = -1"; force simp: k_def j_def)
  then have "consumeAllLoop s t 0 k =
     (if k = -1 then Some (Returns (False, s, 0))
      else if k > 0 then Some (Returns (True, drop (nat k + length t) s, k + len t))
      else if j = -1 then Some (Returns (False, s, 0))
      else if j > 0 then Some (Returns (True, drop (nat j + length t) s, j + len t))
      else None)"
  proof cases
    case 1
    then show ?thesis by (subst consumeAllLoop.simps) simp
  next
    case 2
    with strings_Index_found[of s t k] have "k + len t \<le> len s" "0 \<le> k"
      by (simp_all add: k_def)
    then have "sliceFrom s (k + len t) = Returns (drop (nat k + length t) s)"
      by (simp add: sliceFrom_def slice_def nat_add_distrib)
    with 2 show ?thesis by (subst consumeAllLoop.simps) simp
  next
    case 3
    then have "consumeAllLoop s t 0 k = consumeAllLoop s t 0 (-1)"
      by (subst consumeAllLoop.simps) (simp add: s1 j_def)
    also have "\<dots> = Some (Returns (False, s, 0))"
      by (subst consumeAllLoop.simps) simp
    finally show ?thesis using 3 by simp
  next
    case 4
    with strings_Index_found[of "drop 1 s" t j] have "j + len t \<le> len (drop 1 s)"
      by (simp add: j_def)
    then have "j + len t \<le> len s" by simp
    with 4 have sl: "sliceFrom s (j + len t) = Returns (drop (nat j + length t) s)"
      by (simp add: sliceFrom_def slice_def nat_add_distrib)
    from 4 have "consumeAllLoop s t 0 k = consumeAllLoop s t 0 j"
      by (subst consumeAllLoop.simps) (simp add: s1 j_def)
    also have "\<dots> = Some (Returns (True, drop (nat j + length t) s, j + len t))"
      using 4 sl by (subst consumeAllLoop.simps) simp
    finally show ?thesis using 4 by simp
  next
    case 5
    with consumeAllLoop_spins[OF s, of t] show ?thesis
      by (simp add: j_def)
  qed
  with start show ?thesis by (simp add: k_def j_def)
qed

text \<open>
  C3 (the code differs). The scanner of \<open>?\<close> is claimed to succeed exactly when the bytes
  after the first code point equal the substring. The comparison in the code is inverted:
  on \<open>ab\<close> with the substring \<open>b\<close> it fails, and with the substring \<open>c\<close> it succeeds and
  consumes both bytes.
\<close>

theorem C3_consumeOnePreceding_inverted:
  "consumeOnePreceding ''ab'' ''b'' = Returns (False, ''ab'', 0)
   \<and> consumeOnePreceding ''ab'' ''c'' = Returns (True, [], 2)"
  by (simp add: scan_defs)

text \<open>
  C4 (the code differs). The scanner of \<open>*\<close> is claimed to return the input sliced
  past the earliest occurrence of the substring at a byte position of at least 1. On \<open>aXa\<close>
  with the substring \<open>a\<close> that occurrence is at position 2 and the input past it is empty
  (3 bytes consumed); the code returns the input from position 2, with 2 bytes consumed,
  because the offset it keeps does not count the byte it skipped.
\<close>

theorem C4_consumeAllPreceding_off_by_one:
  "consumeAllPreceding ''aXa'' ''a'' = Some (Returns (True, ''a'', 2))"
  by (simp add: scan_defs consumeAllLoop.simps)

section \<open>Properties of the compiler\<close>

text \<open>
  The decoder: a sequence is at least one byte wide and never longer than the string, and
  a code point below 128 is always the first byte itself, so no part of a longer sequence
  is taken for a backslash, a \<open>*\<close> or a \<open>?\<close>.
\<close>

lemma decodeRune_size: "s \<noteq> [] \<Longrightarrow> 1 \<le> snd (decodeRune s) \<and> snd (decodeRune s) \<le> length s"
  by (cases s) (auto simp: decodeRune_def Let_def Suc_le_eq)

lemma lead2: "194 \<le> (x::nat) \<Longrightarrow> x < 224 \<Longrightarrow> 2 \<le> x mod 32" by presburger
lemma lead3: "224 < (x::nat) \<Longrightarrow> x < 240 \<Longrightarrow> 1 \<le> x mod 16" by presburger
lemma lead4: "240 < (x::nat) \<Longrightarrow> x \<le> 244 \<Longrightarrow> 1 \<le> x mod 8" by presburger
lemma cont3: "160 \<le> (x::nat) \<Longrightarrow> x \<le> 191 \<Longrightarrow> 32 \<le> x mod 64" by presburger
lemma cont4: "144 \<le> (x::nat) \<Longrightarrow> x \<le> 191 \<Longrightarrow> 16 \<le> x mod 64" by presburger

lemma decodeRune_multibyte:
  assumes "s \<noteq> []" "\<not> byte s 0 < 128"
  shows "128 \<le> fst (decodeRune s)"
proof -
  define s0 where "s0 = byte s 0"
  define s1 where "s1 = byte s 1"
  define s2 where "s2 = byte s 2"
  define s3 where "s3 = byte s 3"
  have a: "194 \<le> s0 \<Longrightarrow> s0 < 224 \<Longrightarrow> 128 \<le> s0 mod 32 * 64 + s1 mod 64"
    using lead2[of s0] by linarith
  have b: "224 \<le> s0 \<Longrightarrow> s0 < 240 \<Longrightarrow> (s0 = 224 \<longrightarrow> 160 \<le> s1) \<Longrightarrow> s1 \<le> 191
       \<Longrightarrow> 128 \<le> s0 mod 16 * 4096 + s1 mod 64 * 64 + s2 mod 64"
    using lead3[of s0] cont3[of s1] by (cases "s0 = 224") linarith+
  have c: "240 \<le> s0 \<Longrightarrow> s0 \<le> 244 \<Longrightarrow> (s0 = 240 \<longrightarrow> 144 \<le> s1) \<Longrightarrow> s1 \<le> 191
       \<Longrightarrow> 128 \<le> s0 mod 8 * 262144 + s1 mod 64 * 4096 + s2 mod 64 * 64 + s3 mod 64"
    using lead4[of s0] cont4[of s1] by (cases "s0 = 240") linarith+
  show ?thesis
  proof (cases "s0 < 194 \<or> 244 < s0")
    case True
    with assms show ?thesis
      by (simp add: decodeRune_def Let_def RuneError_def s0_def)
  next
    case False
    then consider "194 \<le> s0 \<and> s0 < 224" | "224 \<le> s0 \<and> s0 < 240" | "240 \<le> s0 \<and> s0 \<le> 244"
      by linarith
    then show ?thesis
    proof cases
      case 1
      then have "fst (decodeRune s) = RuneError
          \<or> fst (decodeRune s) = s0 mod 32 * 64 + s1 mod 64"
        by (auto simp add: decodeRune_def Let_def s0_def s1_def)
      with a 1 show ?thesis
        by (auto simp: RuneError_def)
    next
      case 2
      then have "fst (decodeRune s) = RuneError
          \<or> ((s0 = 224 \<longrightarrow> 160 \<le> s1) \<and> s1 \<le> 191
              \<and> fst (decodeRune s) = s0 mod 16 * 4096 + s1 mod 64 * 64 + s2 mod 64)"
        by (auto simp add: decodeRune_def Let_def s0_def s1_def s2_def)
      with b 2 show ?thesis
        by (auto simp: RuneError_def)
    next
      case 3
      then have "fst (decodeRune s) = RuneError
          \<or> ((s0 = 240 \<longrightarrow> 144 \<le> s1) \<and> s1 \<le> 191
              \<and> fst (decodeRune s)
                  = s0 mod 8 * 262144 + s1 mod 64 * 4096 + s2 mod 64 * 64 + s3 mod 64)"
        by (auto simp add: decodeRune_def Let_def s0_def s1_def s2_def s3_def)
      with c 3 show ?thesis
        by (auto simp: RuneError_def)
    qed
  qed
qed

lemma decodeRune_ascii:
  assumes "fst (decodeRune s) < 128"
  shows "s \<noteq> [] \<and> fst (decodeRune s) = of_char (hd s) \<and> snd (decodeRune s) = 1"
proof -
  from assms have ne: "s \<noteq> []"
    by (auto simp: decodeRune_def RuneError_def)
  with assms decodeRune_multibyte[of s] have "byte s 0 < 128"
    by force
  with ne show ?thesis
    by (cases s) (simp_all add: decodeRune_def byte_def)
qed

text \<open>
  The compiler returns no error but \<open>ErrInvalidGlobSequence\<close>, and its slices are in range:
  the start of the last step never passes the index of the code point being read.
\<close>

lemma last_setLast: "ws \<noteq> [] \<Longrightarrow> last (setLast ws g) = g"
  by (simp add: setLast_def last_list_update)

lemma setLast_nonempty: "ws \<noteq> [] \<Longrightarrow> setLast ws g \<noteq> []"
  by (simp add: setLast_def)

lemma nth_last: "ws \<noteq> [] \<Longrightarrow> ws ! nat (len ws - 1) = last ws"
  by (simp add: last_conv_nth nat_diff_distrib')

lemma compileStep_error: "compileStep p ic ws = Returns (Inl e) \<Longrightarrow> e = ErrInvalidGlobSequence"
  by (auto simp: compileStep_def Let_def split: option.splits if_splits run.splits prod.splits)

lemma compileLoop_error: "compileLoop p xs ws = Returns (Inl e) \<Longrightarrow> e = ErrInvalidGlobSequence"
proof (induction xs arbitrary: ws)
  case Nil
  then show ?case by simp
next
  case (Cons ic xs)
  then show ?case
    by (auto split: run.splits sum.splits dest: compileStep_error)
qed

lemma finishSteps_last: "finishSteps p ws = Returns ws' \<Longrightarrow> ws' \<noteq> [] \<and> last ws' = endStep p"
  by (auto simp: finishSteps_def Let_def endStep_def split: if_splits run.splits)

lemma classify_start:
  "classify code index = Some (fn, k, st) \<Longrightarrow> 0 \<le> index \<Longrightarrow>
     (if st = -1 then index + RuneLen code else st) = (if st = -1 then index + 1 else index)
     \<and> (st = -1 \<or> st = index)"
  by (auto simp: classify_def rune_def backslash_def RuneLen_def split: if_splits)

lemma compileStep_startOk:
  assumes "startOk ws (int i)" "int i \<le> len p" "0 < n"
  shows "compileStep p (i, code) ws \<noteq> Panics
       \<and> (compileStep p (i, code) ws = Returns (Inr ws') \<longrightarrow> startOk ws' (int (i + n)))"
proof (cases "classify code (int i)")
  case None
  with assms show ?thesis
    by (auto simp: compileStep_def startOk_def)
next
  case (Some t)
  obtain fn k st where t: "t = (fn, k, st)" by (cases t)
  from Some t classify_start[of code "int i" fn k st]
  have st: "(if st = -1 then int i + RuneLen code else st) = (if st = -1 then int i + 1 else int i)"
    by simp
  show ?thesis
  proof (cases "ws = []")
    case True
    with Some t st assms show ?thesis
      by (auto simp: compileStep_def startOk_def Let_def)
  next
    case False
    with assms have lst: "0 \<le> start (last ws)" "start (last ws) \<le> int i"
      by (auto simp: startOk_def)
    have bs: "code = rune backslash \<Longrightarrow> RuneLen code = 1"
      by (simp add: rune_def backslash_def RuneLen_def)
    from False lst assms(2) have sl: "slice p (start (last ws)) (int i) \<noteq> Panics"
      by (simp add: slice_def)
    from False Some t st lst assms sl bs show ?thesis
      by (auto simp: compileStep_def startOk_def Let_def nth_last last_setLast setLast_nonempty
               split: run.splits)
  qed
qed

lemma compileLoop_startOk:
  "startOk ws (int i) \<Longrightarrow> s = drop i p \<Longrightarrow> i \<le> length p \<Longrightarrow>
     compileLoop p (rangeString i s) ws \<noteq> Panics
     \<and> (compileLoop p (rangeString i s) ws = Returns (Inr ws') \<longrightarrow> startOk ws' (len p))"
proof (induction i s arbitrary: ws rule: rangeString.induct)
  case (1 i)
  then show ?case by auto
next
  case (2 i c cs)
  define n where "n = snd (decodeRune (c # cs))"
  define code where "code = fst (decodeRune (c # cs))"
  from decodeRune_size[of "c # cs"] have n: "0 < n" "n \<le> length (c # cs)"
    by (simp_all add: n_def)
  from 2(3) have lp: "length (c # cs) = length p - i"
    by (metis length_drop)
  with n 2(4) have le: "i + n \<le> length p" "int i \<le> len p"
    by simp_all
  from 2(3) have dr: "drop n (c # cs) = drop (i + n) p"
    by (simp add: add.commute)
  from compileStep_startOk[OF 2(2) le(2) n(1)]
  have st: "compileStep p (i, code) ws \<noteq> Panics"
    "\<And>ws1. compileStep p (i, code) ws = Returns (Inr ws1) \<Longrightarrow> startOk ws1 (int (i + n))"
    by blast+
  show ?case
  proof (cases "compileStep p (i, code) ws")
    case Panics
    with st show ?thesis by simp
  next
    case (Returns r)
    show ?thesis
    proof (cases r)
      case (Inl e)
      with Returns show ?thesis
        by (simp add: code_def)
    next
      case (Inr ws1)
      with Returns st have "startOk ws1 (int (i + n))" by simp
      from 2(1)[OF this[unfolded n_def] dr[unfolded n_def] le(1)[unfolded n_def]] Returns Inr
      show ?thesis
        by (simp add: code_def n_def)
    qed
  qed
qed

lemma compileGlobPattern_total:
  "compileGlobPattern p = Returns (None, Some ErrInvalidGlobSequence)
   \<or> (\<exists>ss. compileGlobPattern p = Returns (Some (ss @ [endStep p]), None))"
proof -
  have ok: "startOk [] (int 0)" by (simp add: startOk_def)
  from compileLoop_startOk[OF ok, of "p" p]
  have np: "compileLoop p (rangeString 0 p) [] \<noteq> Panics"
    and so: "\<And>ws'. compileLoop p (rangeString 0 p) [] = Returns (Inr ws') \<Longrightarrow> startOk ws' (len p)"
    by simp_all
  show ?thesis
  proof (cases "compileLoop p (rangeString 0 p) []")
    case Panics
    with np show ?thesis by simp
  next
    case (Returns r)
    show ?thesis
    proof (cases r)
      case (Inl e)
      with Returns compileLoop_error[of p "rangeString 0 p" "[]" e] show ?thesis
        by (simp add: compileGlobPattern_def)
    next
      case (Inr ws)
      with Returns so have "startOk ws (len p)" by simp
      then have "\<exists>ss. finishSteps p ws = Returns (ss @ [endStep p])"
        by (auto simp: startOk_def finishSteps_def Let_def endStep_def nth_last slice_def sliceFrom_def)
      with Returns Inr show ?thesis
        by (auto simp: compileGlobPattern_def)
    qed
  qed
qed

lemma NewPattern_total:
  "NewPattern p = Returns (None, Some ErrInvalidGlobSequence)
   \<or> (\<exists>ss. NewPattern p = Returns (Some \<lparr>pattern = p, steps = ss @ [endStep p]\<rparr>, None))"
  using compileGlobPattern_total[of p] by (auto simp: NewPattern_def)

text \<open>
  C8. Whenever \<open>NewPattern\<close> succeeds, the steps of the pattern are not empty and the last
  of them is the end step; \<open>NewPattern\<close> never returns \<open>ErrPatternInvalid\<close> (nor
  \<open>ErrPatternEmpty\<close>), and it never panics.
\<close>

theorem C8_steps_end_with_End: "(NewPattern p = Returns (Some g, None) \<longrightarrow>
      steps g \<noteq> [] \<and> last (steps g) = endStep p \<and> kind (last (steps g)) = globEnd)
   \<and> NewPattern p \<noteq> Returns (r, Some ErrPatternInvalid)
   \<and> NewPattern p \<noteq> Returns (r, Some ErrPatternEmpty)
   \<and> NewPattern p \<noteq> Panics"
  using NewPattern_total[of p] by (auto simp: endStep_def)

theorem C8_steps_end_with_End_witness:
  "NewPattern ''a*b'' = Returns (Some \<lparr>pattern = ''a*b'', steps =
       [\<lparr>scanner = ConsumeSubstring, kind = globString, substr = ''a'', start = 0\<rparr>,
        \<lparr>scanner = ConsumeAllPreceding, kind = globMany, substr = ''b'', start = 2\<rparr>,
        endStep ''a*b'']\<rparr>, None)
   \<and> last [\<lparr>scanner = ConsumeSubstring, kind = globString, substr = ''a'', start = 0\<rparr>,
        \<lparr>scanner = ConsumeAllPreceding, kind = globMany, substr = ''b'', start = 2\<rparr>,
        endStep ''a*b''] = endStep ''a*b''"
  using C8_steps_end_with_End[of "''a*b''" "\<lparr>pattern = ''a*b'', steps =
       [\<lparr>scanner = ConsumeSubstring, kind = globString, substr = ''a'', start = 0\<rparr>,
        \<lparr>scanner = ConsumeAllPreceding, kind = globMany, substr = ''b'', start = 2\<rparr>,
        endStep ''a*b'']\<rparr>"]
  by (simp add: compile_defs scan_defs)

text \<open>
  C7 (the code differs). Compilation is claimed to fail with \<open>ErrInvalidGlobSequence\<close>
  only when a wildcard directly follows a \<open>*\<close>, with no literal text and no escaped character
  in between. The code also rejects a star, an escaped backslash and a star, and a star
  followed by an escaped star: each backslash after a \<open>*\<close> moves the start of that step one
  byte on, so the start meets the index of the next wildcard character, which is what the
  adjacency test compares. The two patterns of the claim, \<open>a**b\<close> and \<open>a*?b\<close>, are rejected
  as it says.
\<close>

theorem C7_escaped_text_after_star_rejected:
  "compileGlobPattern [CHR ''*'', backslash, backslash, CHR ''*'']
     = Returns (None, Some ErrInvalidGlobSequence)
   \<and> compileGlobPattern [CHR ''*'', backslash, CHR ''*'']
     = Returns (None, Some ErrInvalidGlobSequence)
   \<and> compileGlobPattern ''a**b'' = Returns (None, Some ErrInvalidGlobSequence)
   \<and> compileGlobPattern ''a*?b'' = Returns (None, Some ErrInvalidGlobSequence)"
  by (simp add: compile_defs scan_defs)

text \<open>Patterns without a backslash, a \<open>*\<close> or a \<open>?\<close>: only the first code point makes a step.\<close>

lemma rune_eq_iff: "rune c = rune d \<longleftrightarrow> c = d"
  by (simp add: rune_def)

lemma decodeRune_first:
  assumes "fst (decodeRune (c # cs)) = rune d" "rune d < 128"
  shows "c = d"
proof -
  from assms decodeRune_ascii[of "c # cs"] have "rune c = rune d"
    by (simp add: rune_def)
  then show ?thesis by (simp add: rune_eq_iff)
qed

lemma classify_plain:
  assumes "c \<noteq> backslash" "c \<noteq> CHR ''*''" "c \<noteq> CHR ''?''"
  shows "classify (fst (decodeRune (c # cs))) index
     = (if index = 0 then Some (ConsumeSubstring, globString, index) else None)"
proof -
  have "fst (decodeRune (c # cs)) \<noteq> rune backslash"
    using decodeRune_first[of c cs backslash] assms by (auto simp: rune_def backslash_def)
  moreover have "fst (decodeRune (c # cs)) \<noteq> rune (CHR ''*'')"
    using decodeRune_first[of c cs "CHR ''*''"] assms by (auto simp: rune_def)
  moreover have "fst (decodeRune (c # cs)) \<noteq> rune (CHR ''?'')"
    using decodeRune_first[of c cs "CHR ''?''"] assms by (auto simp: rune_def)
  ultimately show ?thesis
    by (simp add: classify_def)
qed

lemma compileLoop_plain:
  "backslash \<notin> set s \<Longrightarrow> CHR ''*'' \<notin> set s \<Longrightarrow> CHR ''?'' \<notin> set s \<Longrightarrow> 0 < i \<Longrightarrow>
     compileLoop p (rangeString i s) ws = Returns (Inr ws)"
proof (induction i s arbitrary: ws rule: rangeString.induct)
  case (1 i)
  then show ?case by simp
next
  case (2 i c cs)
  have sub: "set (drop (snd (decodeRune (c # cs))) (c # cs)) \<subseteq> set (c # cs)"
    by (rule set_drop_subset)
  from 2(2-4) have c: "c \<noteq> backslash" "c \<noteq> CHR ''*''" "c \<noteq> CHR ''?''"
    by auto
  from 2(5) have "compileStep p (i, fst (decodeRune (c # cs))) ws = Returns (Inr ws)"
    by (simp add: compileStep_def Let_def classify_plain[OF c])
  moreover from 2(1)[of ws] 2(2-5) sub
  have "compileLoop p (rangeString (i + snd (decodeRune (c # cs)))
          (drop (snd (decodeRune (c # cs))) (c # cs))) ws = Returns (Inr ws)"
    by (meson subsetD trans_less_add1)
  ultimately show ?case by simp
qed

lemma compileGlobPattern_plain:
  assumes "backslash \<notin> set p" "CHR ''*'' \<notin> set p" "CHR ''?'' \<notin> set p" "p \<noteq> []"
  shows "compileGlobPattern p = Returns (Some
     [\<lparr>scanner = ConsumeSubstring, kind = globString, substr = p, start = 0\<rparr>, endStep p], None)"
proof -
  obtain c cs where p: "p = c # cs" using assms(4) by (cases p) auto
  define n where "n = snd (decodeRune (c # cs))"
  have n: "0 < n" using decodeRune_size[of "c # cs"] by (simp add: n_def)
  have sub: "set (drop n (c # cs)) \<subseteq> set (c # cs)"
    by (rule set_drop_subset)
  have st: "compileStep p (0, fst (decodeRune (c # cs))) []
      = Returns (Inr [\<lparr>scanner = ConsumeSubstring, kind = globString, substr = [], start = 0\<rparr>])"
  proof -
    from assms p have c: "c \<noteq> backslash" "c \<noteq> CHR ''*''" "c \<noteq> CHR ''?''"
      by auto
    show ?thesis
      by (simp add: compileStep_def Let_def classify_plain[OF c])
  qed
  have rest: "compileLoop p (rangeString n (drop n (c # cs)))
        [\<lparr>scanner = ConsumeSubstring, kind = globString, substr = [], start = 0\<rparr>]
      = Returns (Inr [\<lparr>scanner = ConsumeSubstring, kind = globString, substr = [], start = 0\<rparr>])"
    using assms p sub n by (intro compileLoop_plain) auto
  have "compileLoop p (rangeString 0 p) []
      = Returns (Inr [\<lparr>scanner = ConsumeSubstring, kind = globString, substr = [], start = 0\<rparr>])"
    using st rest by (simp add: p n_def)
  then show ?thesis
    by (simp add: compileGlobPattern_def finishSteps_def setLast_def sliceFrom_def slice_def endStep_def)
qed

section \<open>Properties of the matcher\<close>

lemma NewPattern_star_a:
  "NewPattern ''*a'' = Returns (Some \<lparr>pattern = ''*a'',
     steps = [\<lparr>scanner = ConsumeAllPreceding, kind = globMany, substr = ''a'', start = 1\<rparr>,
              endStep ''*a'']\<rparr>, None)"
  by (simp add: compile_defs scan_defs)

text \<open>
  C1 (the code differs). Matching is claimed to be total: for every compiled pattern and
  every candidate, \<open>GlobPattern.Matches\<close> returns a boolean. The pattern \<open>*a\<close> compiles,
  and on the candidate \<open>aa\<close> its first step calls \<open>consumeAllPreceding\<close>, whose search loop
  never returns: the call of \<open>Matches\<close> does not return.
\<close>

theorem C1_Matches_star_a_never_returns:
  "NewPattern ''*a'' = Returns (Some \<lparr>pattern = ''*a'',
     steps = [\<lparr>scanner = ConsumeAllPreceding, kind = globMany, substr = ''a'', start = 1\<rparr>,
              endStep ''*a'']\<rparr>, None)
   \<and> GlobPattern_Matches \<lparr>pattern = ''*a'',
     steps = [\<lparr>scanner = ConsumeAllPreceding, kind = globMany, substr = ''a'', start = 1\<rparr>,
              endStep ''*a'']\<rparr> ''aa'' = None
   \<and> Matches (PatternStrP ''*a'') ''aa'' = None"
  by (simp add: NewPattern_star_a match_defs matchLoop.simps consumeAllPreceding_aa_a endStep_def)

text \<open>
  C2 (the code differs). The pattern backslash-star is claimed to match \<open>*\<close> and not
  \<open>x\<close>. The compiler makes the backslash a literal step that starts after it, and then
  compiles the star as a \<open>globMany\<close> step all the same: the pattern matches \<open>x\<close>.
\<close>

theorem C2_escaped_star_matches_x:
  "compileGlobPattern [backslash, CHR ''*''] = Returns (Some
     [\<lparr>scanner = ConsumeSubstring, kind = globString, substr = [], start = 1\<rparr>,
      \<lparr>scanner = ConsumeAllPreceding, kind = globMany, substr = [], start = 2\<rparr>,
      \<lparr>scanner = ConsumeEnd, kind = globEnd, substr = [], start = 2\<rparr>], None)
   \<and> Matches (PatternStrP [backslash, CHR ''*'']) ''x'' = Some (Returns (True, None))"
  by (simp add: compile_defs scan_defs match_defs matchLoop.simps)

text \<open>
  C10. The empty pattern compiles to the end step alone, and the compiled pattern matches
  a candidate exactly when the candidate is empty.
\<close>

theorem C10_empty_pattern:
  "NewPattern [] = Returns (Some \<lparr>pattern = [], steps = [endStep []]\<rparr>, None)
   \<and> GlobPattern_Matches \<lparr>pattern = [], steps = [endStep []]\<rparr> s = Some (Returns (s = []))"
  by (simp add: compile_defs match_defs scan_defs matchLoop.simps)

lemma matchLoop_plain:
  assumes "p \<noteq> []"
  shows "matchLoop [\<lparr>scanner = ConsumeSubstring, kind = globString, substr = p, start = 0\<rparr>, endStep p]
           (initCursor s) = Some (Returns (p = s))"
proof (cases "take (length p) s = p")
  case True
  then have s: "s = p @ drop (length p) s"
    by (metis append_take_drop_id)
  then have ll: "length p \<le> length s"
    by (metis le_add1 length_append)
  from True ll assms have "consumeSubstring s p = Returns (True, drop (length p) s, len p)"
    by (simp add: consumeSubstring_def sliceTo_def sliceFrom_def slice_def)
  with s show ?thesis
    by (cases "drop (length p) s = []")
       (auto simp add: matchLoop.simps match_defs consumeEnd_def endStep_def)
next
  case False
  with assms have "consumeSubstring s p = Returns (False, s, 0)"
    by (simp add: consumeSubstring_def sliceTo_def slice_def)
  moreover from False have "p \<noteq> s" by auto
  ultimately show ?thesis
    by (simp add: matchLoop.simps match_defs)
qed

lemma NewPattern_plain:
  assumes "backslash \<notin> set p" "CHR ''*'' \<notin> set p" "CHR ''?'' \<notin> set p"
  shows "NewPattern p = Returns (Some \<lparr>pattern = p, steps =
     (if p = [] then [] else [\<lparr>scanner = ConsumeSubstring, kind = globString, substr = p, start = 0\<rparr>])
       @ [endStep p]\<rparr>, None)"
proof (cases "p = []")
  case True
  then show ?thesis by (simp add: compile_defs)
next
  case False
  with compileGlobPattern_plain[OF assms] show ?thesis
    by (simp add: NewPattern_def)
qed

lemma matchLoop_endStep: "matchLoop [endStep []] (initCursor s) = Some (Returns ([] = s))"
  by (auto simp add: match_defs scan_defs endStep_def matchLoop.simps)

text \<open>
  C6 (amended). A pattern without \<open>*\<close> and \<open>?\<close> can still hold a backslash, which the
  compiler drops: the two-byte pattern backslash-\<open>a\<close> does not match itself. For a pattern
  with none of \<open>*\<close>, \<open>?\<close> and backslash, compilation yields one literal step that carries
  the whole pattern, followed by the end step (the end step alone when the pattern is
  empty), and the pattern matches a candidate exactly when the two are equal.
\<close>

theorem C6_plain_pattern_matches_itself_only:
  assumes "CHR ''*'' \<notin> set p" "CHR ''?'' \<notin> set p" "backslash \<notin> set p"
  shows "NewPattern p = Returns (Some \<lparr>pattern = p, steps =
     (if p = [] then [] else [\<lparr>scanner = ConsumeSubstring, kind = globString, substr = p, start = 0\<rparr>])
       @ [endStep p]\<rparr>, None)
    \<and> Matches (PatternStrP p) s = Some (Returns (p = s, None))"
proof (cases "p = []")
  case True
  with NewPattern_plain[OF assms(3,1,2)] matchLoop_endStep[of s] show ?thesis
    by (simp add: Matches_def compiled_def matcher_Matches_def GlobPattern_Matches_def)
next
  case False
  with NewPattern_plain[OF assms(3,1,2)] matchLoop_plain[of p s] show ?thesis
    by (simp add: Matches_def compiled_def matcher_Matches_def GlobPattern_Matches_def)
qed

theorem C6_plain_pattern_matches_itself_only_witness:
  "CHR ''*'' \<notin> set ''abc'' \<and> CHR ''?'' \<notin> set ''abc'' \<and> backslash \<notin> set ''abc''
   \<and> Matches (PatternStrP ''abc'') ''abc'' = Some (Returns (True, None))
   \<and> Matches (PatternStrP ''abc'') ''abd'' = Some (Returns (False, None))"
  using C6_plain_pattern_matches_itself_only[of "''abc''" "''abc''"]
    C6_plain_pattern_matches_itself_only[of "''abc''" "''abd''"]
  by (simp add: backslash_def)

text \<open>
  The pattern backslash-\<open>a\<close> holds no wildcard character and does not match itself.
\<close>

theorem C6_backslash_counterexample:
  "CHR ''*'' \<notin> set [backslash, CHR ''a''] \<and> CHR ''?'' \<notin> set [backslash, CHR ''a'']
   \<and> Matches (PatternStrP [backslash, CHR ''a'']) [backslash, CHR ''a''] = Some (Returns (False, None))"
  by (simp add: compile_defs scan_defs match_defs matchLoop.simps)

text \<open>The invariant of the loop of \<open>GlobPattern.Matches\<close>, and what it gives.\<close>

lemma initCursor_ok: "cursorOk ss (initCursor str)"
  by (simp add: cursorOk_def initCursor_def)

lemma firstManyIndex_eq:
  assumes "\<forall>j < n. kind (ss ! j) \<noteq> globMany" "n < length ss" "kind (ss ! n) = globMany"
  shows "firstManyIndex ss = int n"
proof -
  have "takeWhile (\<lambda>g. kind g \<noteq> globMany) ss = take n ss"
    using assms by (intro takeWhile_eq_take_P_nth) auto
  with assms(2) show ?thesis
    by (simp add: firstManyIndex_def)
qed

lemma firstManyIndex_none:
  assumes "firstManyIndex ss < len ss"
  shows "kind (ss ! nat (firstManyIndex ss)) = globMany"
  using assms nth_length_takeWhile[of "\<lambda>g. kind g \<noteq> globMany" ss]
  by (simp add: firstManyIndex_def)

lemma firstManyIndex_least:
  "j < nat (firstManyIndex ss) \<Longrightarrow> kind (ss ! j) \<noteq> globMany"
  using nth_mem set_takeWhileD takeWhile_nth
  by (metis (mono_tags, lifting) firstManyIndex_def nat_int)

lemma beforeScan_ok:
  assumes ok: "cursorOk ss c" and lt: "stepIndex c < len ss"
  defines "c1 \<equiv> beforeScan (ss ! nat (stepIndex c)) c"
  shows "stepIndex c1 = stepIndex c" "wasReset c1 = wasReset c" "remaining c1 = remaining c"
    and "firstMany c1 = -1 \<Longrightarrow> \<forall>j \<le> nat (stepIndex c). kind (ss ! j) \<noteq> globMany"
    and "firstMany c1 \<noteq> -1 \<Longrightarrow> firstMany c1 = firstManyIndex ss \<and> firstMany c1 < len ss
           \<and> firstMany c1 \<le> stepIndex c"
proof -
  show "stepIndex c1 = stepIndex c" "wasReset c1 = wasReset c" "remaining c1 = remaining c"
    by (simp_all add: c1_def beforeScan_def)
  from ok have nn: "0 \<le> stepIndex c" by (simp add: cursorOk_def)
  with lt have ltn: "nat (stepIndex c) < length ss" by simp
  { assume m: "firstMany c1 = -1"
    then have fm: "firstMany c = -1" and k: "kind (ss ! nat (stepIndex c)) \<noteq> globMany"
      using nn by (auto simp: c1_def beforeScan_def split: if_splits)
    with ok ltn have "\<forall>j < nat (stepIndex c). kind (ss ! j) \<noteq> globMany"
      by (auto simp: cursorOk_def)
    with k show "\<forall>j \<le> nat (stepIndex c). kind (ss ! j) \<noteq> globMany"
      by (auto simp: le_less)
  }
  { assume m: "firstMany c1 \<noteq> -1"
    show "firstMany c1 = firstManyIndex ss \<and> firstMany c1 < len ss \<and> firstMany c1 \<le> stepIndex c"
    proof (cases "firstMany c = -1")
      case True
      with m have k: "kind (ss ! nat (stepIndex c)) = globMany" and e: "firstMany c1 = stepIndex c"
        by (auto simp: c1_def beforeScan_def split: if_splits)
      from True ok ltn have "\<forall>j < nat (stepIndex c). kind (ss ! j) \<noteq> globMany"
        by (auto simp: cursorOk_def)
      from firstManyIndex_eq[OF this ltn k] e nn lt show ?thesis by simp
    next
      case False
      with ok have "firstMany c = firstManyIndex ss \<and> firstMany c < len ss
          \<and> firstMany c \<le> stepIndex c"
        by (simp add: cursorOk_def)
      moreover from False have "firstMany c1 = firstMany c"
        by (auto simp add: c1_def beforeScan_def)
      ultimately show ?thesis by simp
    qed
  }
qed

lemma iteration_ok:
  assumes ok: "cursorOk ss c" and lt: "stepIndex c < len ss"
    and it: "iteration ss c = Some (Returns (Next c'))"
  shows "cursorOk ss c'"
proof -
  define test where "test = ss ! nat (stepIndex c)"
  define c1 where "c1 = beforeScan test c"
  note b = beforeScan_ok[OF ok lt, folded test_def, folded c1_def]
  from ok have nn: "0 \<le> stepIndex c" by (simp add: cursorOk_def)
  from it nn obtain m rest k where
    af: "afterScan test c1 (m, rest, k) = Returns (Next c')"
    by (auto simp: iteration_def Let_def test_def c1_def split: option.splits run.splits)
  show ?thesis
  proof (cases m)
    case True
    with af have c': "stepIndex c' = stepIndex c + 1" "firstMany c' = firstMany c1"
      by (auto simp: afterScan_def b(1) split: run.splits if_splits)
    show ?thesis
    proof (cases "firstMany c1 = -1")
      case True
      from b(4)[OF True] nn c' True show ?thesis
        by (auto simp: cursorOk_def nat_add_distrib less_Suc_eq_le)
    next
      case False
      from b(5)[OF False] nn c' False show ?thesis
        by (auto simp: cursorOk_def)
    qed
  next
    case False
    with af have c': "stepIndex c' = firstMany c1" "firstMany c' = firstMany c1" "firstMany c1 \<noteq> -1"
      by (auto simp: afterScan_def split: run.splits if_splits)
    from b(5)[OF c'(3)] c' show ?thesis
      by (auto simp: cursorOk_def firstManyIndex_def)
  qed
qed

lemma cursorAt_ok: "cursorAt ss str n = Some c \<Longrightarrow> cursorOk ss c"
proof (induction n arbitrary: c)
  case 0
  then show ?case by (auto simp: initCursor_ok)
next
  case (Suc n)
  from Suc.prems obtain c0 where c0: "cursorAt ss str n = Some c0" "stepIndex c0 < len ss"
      "iteration ss c0 = Some (Returns (Next c))"
    by (auto split: option.splits if_splits run.splits transition.splits)
  from iteration_ok[OF Suc.IH[OF c0(1)] c0(2,3)] show ?case .
qed

lemma matchLoop_cursorAt:
  "cursorAt ss str n = Some c \<Longrightarrow> matchLoop ss (initCursor str) = matchLoop ss c"
proof (induction n arbitrary: c)
  case 0
  then show ?case by simp
next
  case (Suc n)
  from Suc.prems obtain c0 where c0: "cursorAt ss str n = Some c0" "stepIndex c0 < len ss"
      "iteration ss c0 = Some (Returns (Next c))"
    by (auto split: option.splits if_splits run.splits transition.splits)
  from c0(2,3) have "matchLoop ss c0 = matchLoop ss c"
    by (subst matchLoop.simps) simp
  with Suc.IH[OF c0(1)] show ?case by simp
qed

text \<open>
  C5. Let \<open>c\<close> be a cursor the loop of \<open>GlobPattern.Matches\<close> reaches on the input
  \<open>str\<close>, with its step index in range, and let the scanner of that step fail. The saved
  input is \<open>firstManySubstr\<close> and the record of the first \<open>globMany\<close> step is \<open>firstMany\<close>,
  both as the head of the loop body leaves them (\<open>c1\<close>). Then the pass returns \<open>false\<close>, and
  so does the call, if no \<open>globMany\<close> step is recorded, or the step is the first one, or the
  pass before was a reset, or the saved input is empty. Otherwise the loop goes on at the
  first \<open>globMany\<close> step of the whole sequence, on the saved input without its first byte
  (one element of the Go string), with the reset flag set and nothing else changed. No
  \<open>globMany\<close> step is recorded exactly when none occurs up to the failing step.
\<close>

theorem C5_backtrack_on_failure:
  assumes reach: "cursorAt ss str n = Some c"
    and inrange: "stepIndex c < len ss"
    and test: "test = ss ! nat (stepIndex c)"
    and c1: "c1 = beforeScan test c"
    and fails: "runScanner (scanner test) (remaining c1) (substr test) = Some (Returns (False, rest, k))"
  shows "iteration ss c = Some (Returns
           (if firstMany c1 = -1 \<or> stepIndex c = 0 \<or> wasReset c \<or> firstManySubstr c1 = []
            then Return False
            else Next (c1\<lparr>stepIndex := firstManyIndex ss,
                          remaining := drop 1 (firstManySubstr c1),
                          wasReset := True\<rparr>)))
       \<and> GlobPattern_Matches \<lparr>pattern = pt, steps = ss\<rparr> str =
           (if firstMany c1 = -1 \<or> stepIndex c = 0 \<or> wasReset c \<or> firstManySubstr c1 = []
            then Some (Returns False)
            else matchLoop ss (c1\<lparr>stepIndex := firstManyIndex ss,
                          remaining := drop 1 (firstManySubstr c1),
                          wasReset := True\<rparr>))
       \<and> ((firstMany c1 = -1) = (\<forall>j \<le> nat (stepIndex c). kind (ss ! j) \<noteq> globMany))
       \<and> (firstMany c1 \<noteq> -1 \<longrightarrow>
            firstMany c1 = firstManyIndex ss \<and> kind (ss ! nat (firstManyIndex ss)) = globMany
            \<and> (\<forall>j < nat (firstManyIndex ss). kind (ss ! j) \<noteq> globMany))"
proof -
  from cursorAt_ok[OF reach] have ok: "cursorOk ss c" .
  then have nn: "0 \<le> stepIndex c" by (simp add: cursorOk_def)
  note b = beforeScan_ok[OF ok inrange, folded test, folded c1]
  have many: "firstMany c1 = firstManyIndex ss \<and> kind (ss ! nat (firstManyIndex ss)) = globMany
      \<and> (\<forall>j < nat (firstManyIndex ss). kind (ss ! j) \<noteq> globMany)" if "firstMany c1 \<noteq> -1"
    using b(5)[OF that] firstManyIndex_none[of ss] firstManyIndex_least[of _ ss] by auto
  have le: "firstManyIndex ss \<le> stepIndex c" if "firstMany c1 \<noteq> -1"
    using b(5)[OF that] by simp
  have iff: "(firstMany c1 = -1) = (\<forall>j \<le> nat (stepIndex c). kind (ss ! j) \<noteq> globMany)"
  proof
    assume "firstMany c1 = -1"
    from b(4)[OF this] show "\<forall>j \<le> nat (stepIndex c). kind (ss ! j) \<noteq> globMany" .
  next
    assume a: "\<forall>j \<le> nat (stepIndex c). kind (ss ! j) \<noteq> globMany"
    show "firstMany c1 = -1"
    proof (rule ccontr)
      assume n: "firstMany c1 \<noteq> -1"
      from many[OF n] le[OF n] a nn show False
        by (metis nat_mono)
    qed
  qed
  have sl: "firstManySubstr c1 \<noteq> [] \<Longrightarrow> sliceFrom (firstManySubstr c1) 1 = Returns (drop 1 (firstManySubstr c1))"
    by (cases "firstManySubstr c1") (simp_all add: sliceFrom_def slice_def)
  have it: "iteration ss c = Some (Returns
           (if firstMany c1 = -1 \<or> stepIndex c = 0 \<or> wasReset c \<or> firstManySubstr c1 = []
            then Return False
            else Next (c1\<lparr>stepIndex := firstManyIndex ss,
                          remaining := drop 1 (firstManySubstr c1),
                          wasReset := True\<rparr>)))"
    using fails nn b(1,2) sl many
    by (auto simp: iteration_def Let_def test[symmetric] c1[symmetric] afterScan_def)
  have ml: "matchLoop ss c = (if firstMany c1 = -1 \<or> stepIndex c = 0 \<or> wasReset c \<or> firstManySubstr c1 = []
            then Some (Returns False)
            else matchLoop ss (c1\<lparr>stepIndex := firstManyIndex ss,
                          remaining := drop 1 (firstManySubstr c1),
                          wasReset := True\<rparr>))"
    using inrange by (subst matchLoop.simps) (simp only: it if_True, simp)
  have gm: "GlobPattern_Matches \<lparr>pattern = pt, steps = ss\<rparr> str = matchLoop ss c"
    using matchLoop_cursorAt[OF reach] by (simp add: GlobPattern_Matches_def)
  from many have many': "firstMany c1 \<noteq> -1 \<longrightarrow>
            firstMany c1 = firstManyIndex ss \<and> kind (ss ! nat (firstManyIndex ss)) = globMany
            \<and> (\<forall>j < nat (firstManyIndex ss). kind (ss ! j) \<noteq> globMany)"
    by blast
  show ?thesis
    unfolding gm ml
    by (intro conjI it iff many' refl)
qed

theorem C5_backtrack_on_failure_witness:
  "cursorAt [\<lparr>scanner = ConsumeSubstring, kind = globString, substr = ''a'', start = 0\<rparr>,
             \<lparr>scanner = ConsumeAllPreceding, kind = globMany, substr = ''b'', start = 2\<rparr>,
             endStep ''a*b''] ''axc'' 1
     = Some \<lparr>stepIndex = 1, remaining = ''xc'', firstMany = -1, firstManySubstr = ''axc'',
              wasReset = False\<rparr>
   \<and> runScanner ConsumeAllPreceding ''xc'' ''b'' = Some (Returns (False, ''xc'', 0))
   \<and> iteration [\<lparr>scanner = ConsumeSubstring, kind = globString, substr = ''a'', start = 0\<rparr>,
             \<lparr>scanner = ConsumeAllPreceding, kind = globMany, substr = ''b'', start = 2\<rparr>,
             endStep ''a*b'']
        \<lparr>stepIndex = 1, remaining = ''xc'', firstMany = -1, firstManySubstr = ''axc'',
              wasReset = False\<rparr>
     = Some (Returns (Next \<lparr>stepIndex = 1, remaining = ''c'', firstMany = 1,
              firstManySubstr = ''xc'', wasReset = True\<rparr>))"
proof -
  let ?ss = "[\<lparr>scanner = ConsumeSubstring, kind = globString, substr = ''a'', start = 0\<rparr>,
             \<lparr>scanner = ConsumeAllPreceding, kind = globMany, substr = ''b'', start = 2\<rparr>,
             endStep ''a*b'']"
  let ?c = "\<lparr>stepIndex = 1, remaining = ''xc'', firstMany = -1, firstManySubstr = ''axc'',
              wasReset = False\<rparr>"
  let ?test = "\<lparr>scanner = ConsumeAllPreceding, kind = globMany, substr = ''b'', start = 2\<rparr>"
  let ?c1 = "\<lparr>stepIndex = 1, remaining = ''xc'', firstMany = 1, firstManySubstr = ''xc'',
              wasReset = False\<rparr>"
  have h1: "cursorAt ?ss ''axc'' 1 = Some ?c"
    by (simp add: match_defs scan_defs)
  have h2: "stepIndex ?c < len ?ss" by simp
  have h3: "?test = ?ss ! nat (stepIndex ?c)" by simp
  have h4: "?c1 = beforeScan ?test ?c" by (simp add: beforeScan_def)
  have h5: "runScanner (scanner ?test) (remaining ?c1) (substr ?test) = Some (Returns (False, ''xc'', 0))"
    by (simp add: runScanner_def scan_defs consumeAllLoop.simps)
  have fm: "firstManyIndex ?ss = 1"
    by (simp add: firstManyIndex_def)
  from C5_backtrack_on_failure[OF h1 h2 h3 h4 h5, of "''a*b''"] h1 h5 fm show ?thesis
    by simp
qed

section \<open>Properties of the pattern surface\<close>

text \<open>
  No call of \<open>Matches\<close> returns \<open>ErrInvalidPatternType\<close>, whatever the pattern value: the
  error is declared and documented, and returned by no path of the code.
\<close>

lemma Matches_never_ErrInvalidPatternType:
  "Matches p s \<noteq> Some (Returns (b, Some ErrInvalidPatternType))"
proof (cases p)
  case NilPattern
  then show ?thesis by (simp add: Matches_def compiled_def)
next
  case (GlobPatternP g)
  then show ?thesis
    by (auto simp: Matches_def compiled_def split: option.splits run.splits)
next
  case (LiteralP l)
  then show ?thesis
    by (auto simp: Matches_def compiled_def matcher_Matches_def)
next
  case (PatternStrP t)
  with NewPattern_total[of t] show ?thesis
    by (auto simp: Matches_def compiled_def split: option.splits run.splits)
qed

text \<open>The error \<open>NewPattern\<close> returns for a pattern text is returned by \<open>Matches\<close>, with \<open>false\<close>.\<close>

lemma Matches_returns_compile_error:
  "NewPattern t = Returns (g, Some e) \<Longrightarrow>
     Matches (PatternStrP t) s = Some (Returns (False, Some e))"
  by (simp add: Matches_def compiled_def)

text \<open>
  C9 (the code differs). \<open>Matches\<close> is claimed, as its doc comment says, to return
  \<open>(false, ErrInvalidPatternType)\<close> when the pattern value is neither a pattern text nor a
  compiled pattern nor a literal. The \<open>nil\<close> value of the interface type \<open>Pattern\<close> is such
  a value, and the parameter's type admits it: \<open>Matches\<close> calls its \<open>compiled\<close> method and
  panics, so no pair is returned to the caller.
\<close>

theorem C9_nil_pattern_panics:
  "Matches NilPattern ''x'' = Some Panics
   \<and> Matches NilPattern ''x'' \<noteq> Some (Returns (False, Some ErrInvalidPatternType))"
  by (simp add: Matches_def compiled_def)

end
